theory Spec2Isabelle
  imports Main "HOL-Library.Sublist" "HOL-Library.Multiset"
begin

section \<open>Runes and strings\<close>

text \<open>
  A Go \<^verbatim>\<open>rune\<close> is a Unicode code point (an \<^verbatim>\<open>int32\<close>); the parser only
  compares runes, so a rune is modelled by its code point as an \<open>int\<close>. A line is
  modelled by the rune slice \<^verbatim>\<open>[]rune(line)\<close> that \<^verbatim>\<open>parseLine\<close> works on, for a
  line of valid UTF-8: \<^verbatim>\<open>len(line) == 0\<close> holds exactly when that slice is empty,
  \<^verbatim>\<open>string(rs)\<close> of a sub-slice is the sub-slice again, and a literal occurs in the
  line as a string exactly when its runes occur in the slice.
\<close>

type_synonym rune = int
type_synonym gostring = "rune list"

text \<open>The rune literals of the source, by code point.\<close>

abbreviation rLeftQuote :: rune where "rLeftQuote \<equiv> 12298"   \<comment> \<open>U+300A, left double angle bracket\<close>
abbreviation rRightQuote :: rune where "rRightQuote \<equiv> 12299" \<comment> \<open>U+300B, right double angle bracket\<close>
abbreviation rSpace :: rune where "rSpace \<equiv> 32"              \<comment> \<open>U+0020\<close>
abbreviation rTab :: rune where "rTab \<equiv> 9"                   \<comment> \<open>U+0009\<close>
abbreviation rWideSpace :: rune where "rWideSpace \<equiv> 12288"   \<comment> \<open>U+3000, ideographic space\<close>
abbreviation rDi :: rune where "rDi \<equiv> 31532"                 \<comment> \<open>U+7B2C, the chapter prefix\<close>
abbreviation rZhang :: rune where "rZhang \<equiv> 31456"           \<comment> \<open>U+7AE0, the chapter suffix\<close>
abbreviation rLing :: rune where "rLing \<equiv> 38646"             \<comment> \<open>U+96F6, zero\<close>
abbreviation rYi :: rune where "rYi \<equiv> 19968"                 \<comment> \<open>U+4E00, one\<close>
abbreviation rEr :: rune where "rEr \<equiv> 20108"                 \<comment> \<open>U+4E8C, two\<close>
abbreviation rSan :: rune where "rSan \<equiv> 19977"               \<comment> \<open>U+4E09, three\<close>
abbreviation rSi :: rune where "rSi \<equiv> 22235"                 \<comment> \<open>U+56DB, four\<close>
abbreviation rWu :: rune where "rWu \<equiv> 20116"                 \<comment> \<open>U+4E94, five\<close>
abbreviation rLiu :: rune where "rLiu \<equiv> 20845"               \<comment> \<open>U+516D, six\<close>
abbreviation rQi :: rune where "rQi \<equiv> 19971"                 \<comment> \<open>U+4E03, seven\<close>
abbreviation rBa :: rune where "rBa \<equiv> 20843"                 \<comment> \<open>U+516B, eight\<close>
abbreviation rJiu :: rune where "rJiu \<equiv> 20061"               \<comment> \<open>U+4E5D, nine\<close>
abbreviation rShi :: rune where "rShi \<equiv> 21313"               \<comment> \<open>U+5341, ten\<close>
abbreviation rBai :: rune where "rBai \<equiv> 30334"               \<comment> \<open>U+767E, hundred\<close>
abbreviation rQian :: rune where "rQian \<equiv> 21315"             \<comment> \<open>U+5343, thousand\<close>
abbreviation rWan :: rune where "rWan \<equiv> 19975"               \<comment> \<open>U+4E07, ten thousand\<close>

text \<open>The author separator \<^verbatim>\<open>" - "\<close> followed by U+4F5C U+8005 U+FF1A (six runes).\<close>

definition authorSep :: gostring where
  "authorSep = [32, 45, 32, 20316, 32773, 65306]"

text \<open>The literal of the extra-chapter pattern: U+756A U+5916 U+FF1A.\<close>

definition fanwai :: gostring where
  "fanwai = [30058, 22806, 65306]"

section \<open>The document\<close>

record paraHead =
  para_id :: int
  para_title :: gostring

record para = paraHead +
  lines :: "gostring list"

record novelHead =
  title :: gostring
  author :: gostring

record novel = novelHead +
  paras :: "para list"

text \<open>A run-time panic of the Go program ends the call without a result.\<close>

datatype panic = IndexOutOfRange | SliceBoundsOutOfRange

section \<open>Character classes\<close>

definition isArabic :: "rune \<Rightarrow> bool" where
  "isArabic ch \<longleftrightarrow> 48 \<le> ch \<and> ch \<le> 57"

definition isDigit :: "rune \<Rightarrow> bool" where
  "isDigit ch \<longleftrightarrow>
     (48 \<le> ch \<and> ch \<le> 57) \<or>
     ch \<in> set [rLing, rYi, rEr, rSan, rSi, rWu, rLiu, rQi, rBa, rJiu, rShi, rBai, rQian, rWan]"

section \<open>Machine integers and the library calls\<close>

text \<open>
  Go's \<^verbatim>\<open>int\<close> is taken to be 64 bits wide. Values are kept as \<open>int\<close>, and the
  arithmetic of the fallback loop wraps around explicitly.
\<close>

definition wrap64 :: "int \<Rightarrow> int" where
  "wrap64 x = (x + 2 ^ 63) mod 2 ^ 64 - 2 ^ 63"

text \<open>
  \<^verbatim>\<open>strconv.Atoi\<close> of the Go standard library: an optional sign, then one or more
  ASCII digits read in base 10; an error (here \<open>None\<close>) on any other input and on a
  value outside the 64-bit range.
\<close>

fun digitsValue :: "rune list \<Rightarrow> int \<Rightarrow> int" where
  "digitsValue [] acc = acc"
| "digitsValue (c # cs) acc = digitsValue cs (acc * 10 + (c - 48))"

definition Atoi :: "gostring \<Rightarrow> int option" where
  "Atoi s =
     (let signed = (s \<noteq> [] \<and> (hd s = 43 \<or> hd s = 45));
          neg = (s \<noteq> [] \<and> hd s = 45);
          ds = (if signed then tl s else s)
      in if ds = [] then None
         else if list_all isArabic ds then
           (let un = digitsValue ds 0
            in if neg then (if un \<le> 2 ^ 63 then Some (- un) else None)
               else (if un < 2 ^ 63 then Some un else None))
         else None)"

text \<open>
  The regular expression of the default case is the literal \<open>fanwai\<close> followed by a lazy
  group that also matches the empty text, and \<^verbatim>\<open>MatchString\<close> looks for a match
  anywhere in the line: it holds exactly when the line contains the literal.
\<close>

definition MatchString :: "gostring \<Rightarrow> bool" where
  "MatchString line \<longleftrightarrow> sublist fanwai line"

section \<open>parseLine\<close>

text \<open>
  The two functions of the package \<^verbatim>\<open>chinese_number\<close> are parameters of the model:
  \<open>ToArabicNumber\<close> returns its integer result together with the error flag
  (\<open>True\<close> for \<^verbatim>\<open>err != nil\<close>), \<open>ParseChineseNumberCharacter\<close> returns the value
  \<^verbatim>\<open>num.GetValue()\<close> of the parsed character, or \<open>None\<close> for an error.
\<close>

type_synonym toArabic = "gostring \<Rightarrow> int \<times> bool"
type_synonym parseChar = "rune \<Rightarrow> int option"

text \<open>The loop over \<^verbatim>\<open>runeId\<close> that fills \<^verbatim>\<open>altId\<close>; it stops at the first error.\<close>

fun altIdOf :: "parseChar \<Rightarrow> rune list \<Rightarrow> int list option" where
  "altIdOf pc [] = Some []"
| "altIdOf pc (r # rs) =
     (case pc r of
        None \<Rightarrow> None
      | Some v \<Rightarrow> (case altIdOf pc rs of None \<Rightarrow> None | Some vs \<Rightarrow> Some (v # vs)))"

text \<open>
  The loop \<^verbatim>\<open>for i = len(altId)-1; i >= 0; i--\<close>: the first argument is the part of
  \<^verbatim>\<open>altId\<close> still to visit, last element first.
\<close>

fun altSum :: "int list \<Rightarrow> int \<Rightarrow> int \<Rightarrow> int" where
  "altSum [] idv factor = idv"
| "altSum (a # as) idv factor =
     altSum as (wrap64 (idv + wrap64 (a * factor))) (wrap64 (factor * 10))"

text \<open>
  Lines 163 to 190: the id of a chapter from a non-empty \<^verbatim>\<open>runeId\<close>. The loop of
  the fallback counts with the variable \<^verbatim>\<open>i\<close> of the enclosing case (it is assigned
  with \<^verbatim>\<open>=\<close>, not declared), so it leaves \<^verbatim>\<open>i\<close> at \<open>-1\<close>. The result is the id
  together with the value of \<^verbatim>\<open>i\<close> afterwards, or \<open>None\<close> where the source returns true.
\<close>

definition paraId :: "toArabic \<Rightarrow> parseChar \<Rightarrow> rune list \<Rightarrow> int \<Rightarrow> (int \<times> int) option" where
  "paraId ToArabicNumber ParseChineseNumberCharacter runeId i =
     (if isArabic (runeId ! 0) then
        (case Atoi runeId of None \<Rightarrow> None | Some idv \<Rightarrow> Some (idv, i))
      else (case ToArabicNumber runeId of
              (idv, err) \<Rightarrow>
                if err then
                  (case altIdOf ParseChineseNumberCharacter runeId of
                     None \<Rightarrow> None
                   | Some altId \<Rightarrow> Some (altSum (rev altId) idv 1, - 1))
                else Some (idv, i)))"

text \<open>The case of the left angle bracket: the novel header.\<close>

definition novelHeaderCase :: "gostring \<Rightarrow> novel \<Rightarrow> panic + bool \<times> novel" where
  "novelHeaderCase runeLine n =
     (let t = takeWhile (\<lambda>r. r \<noteq> rRightQuote) (drop 1 runeLine);
          i = 1 + length t;
          hasRightAngleQuotationMark = (i < length runeLine)
      in if hasRightAngleQuotationMark then
           (let a = (if int i \<le> int (length runeLine) - 7
                        \<and> take 6 (drop (i + 1) runeLine) = authorSep
                     then drop (i + 7) runeLine else [])
            in Inr (False, n\<lparr>title := t, author := a\<rparr>))
         else Inr (True, n))"

text \<open>The case of a leading space: a line of content for the last chapter.\<close>

definition contentCase :: "gostring \<Rightarrow> novel \<Rightarrow> bool \<Rightarrow> panic + bool \<times> novel" where
  "contentCase runeLine n lastStat =
     (if lastStat then Inr (True, n)
      else
        (let i = length (takeWhile (\<lambda>r. r = rSpace \<or> r = rTab \<or> r = rWideSpace) runeLine)
         in if i = length runeLine then Inr (False, n)
            else if length (paras n) = 0 then Inl IndexOutOfRange
            else
              (let k = length (paras n) - 1;
                   p = paras n ! k
               in Inr (False,
                    n\<lparr>paras := (paras n)[k := p\<lparr>lines := lines p @ [drop i runeLine]\<rparr>]\<rparr>))))"

text \<open>The case of the chapter prefix: the title of a chapter.\<close>

definition paraTitleCase ::
  "toArabic \<Rightarrow> parseChar \<Rightarrow> gostring \<Rightarrow> novel \<Rightarrow> panic + bool \<times> novel" where
  "paraTitleCase ToArabicNumber ParseChineseNumberCharacter runeLine n =
     (let runeId = takeWhile isDigit (drop 1 runeLine);
          i = 1 + length runeId
      in if length runeId = 0 then Inr (True, n)
         else if length runeLine \<le> i then Inl IndexOutOfRange
         else if runeLine ! i \<noteq> rZhang then Inr (True, n)
         else
           (case paraId ToArabicNumber ParseChineseNumberCharacter runeId (int i) of
              None \<Rightarrow> Inr (True, n)
            | Some (idv, i') \<Rightarrow>
                if int (length runeLine) < i' + 2 then Inl SliceBoundsOutOfRange
                else Inr (False,
                       n\<lparr>paras := paras n @
                          [\<lparr>para_id = idv, para_title = drop (nat (i' + 2)) runeLine,
                            lines = []\<rparr>]\<rparr>)))"

text \<open>The default case: an extra chapter, or an unknown line.\<close>

definition defaultCase :: "gostring \<Rightarrow> novel \<Rightarrow> panic + bool \<times> novel" where
  "defaultCase line n =
     (if MatchString line then
        Inr (False, n\<lparr>paras := paras n @ [\<lparr>para_id = - 1, para_title = line, lines = []\<rparr>]\<rparr>)
      else Inr (True, n))"

text \<open>
  \<^verbatim>\<open>parseLine\<close> returns \<^verbatim>\<open>isUnknown\<close> and the novel it leaves behind, or panics.
  Every panic of the source happens before the first write to the novel.
\<close>

definition parseLine ::
  "toArabic \<Rightarrow> parseChar \<Rightarrow> gostring \<Rightarrow> novel \<Rightarrow> bool \<Rightarrow> panic + bool \<times> novel" where
  "parseLine ToArabicNumber ParseChineseNumberCharacter line n lastStat =
     (if length line = 0 then Inr (True, n)
      else if line ! 0 = rLeftQuote then novelHeaderCase line n
      else if line ! 0 = rSpace \<or> line ! 0 = rWideSpace then contentCase line n lastStat
      else if line ! 0 = rDi then
        paraTitleCase ToArabicNumber ParseChineseNumberCharacter line n
      else defaultCase line n)"

section \<open>Comparing a chapter before and after a call\<close>

text \<open>
  \<open>keeps p q\<close>: the chapter \<open>q\<close> has the id and the title of \<open>p\<close>, and the lines of
  \<open>p\<close> followed by zero or more further lines.
\<close>

definition keeps :: "para \<Rightarrow> para \<Rightarrow> bool" where
  "keeps p q \<longleftrightarrow>
     para_id q = para_id p \<and> para_title q = para_title p \<and> prefix (lines p) (lines q)"

section \<open>Reading numerals: the reference values\<close>

text \<open>
  Modelled from the spec: the character lookup of the package \<^verbatim>\<open>chinese_number\<close>
  (\<^verbatim>\<open>ParseChineseNumberCharacter\<close> with \<^verbatim>\<open>GetValue\<close>), whose source is not part of the
  repository. Section 1 of the specification describes it as returning a digit or
  placeholder value and failing only on a rune that is not a numeral character: each
  plain digit glyph has its digit as value, each magnitude word its magnitude, and every
  other rune is an error.
\<close>

definition charValue :: parseChar where
  "charValue r =
     map_of [(rLing, 0), (rYi, 1), (rEr, 2), (rSan, 3), (rSi, 4),
             (rWu, 5), (rLiu, 6), (rQi, 7), (rBa, 8), (rJiu, 9),
             (rShi, 10), (rBai, 100), (rQian, 1000), (rWan, 10000)] r"

text \<open>
  The decimal positional value of a list of digits, the leftmost digit in the highest
  place: the value the specification asks of the number parser.
\<close>

fun decimal :: "int list \<Rightarrow> int" where
  "decimal [] = 0"
| "decimal (d # ds) = d * 10 ^ length ds + decimal ds"

section \<open>Ordering the chapters\<close>

text \<open>The three methods that make \<^verbatim>\<open>paras\<close> a \<^verbatim>\<open>sort.Interface\<close>.\<close>

definition Len :: "para list \<Rightarrow> nat" where
  "Len p = length p"

definition Less :: "para list \<Rightarrow> nat \<Rightarrow> nat \<Rightarrow> bool" where
  "Less p i j \<longleftrightarrow> para_id (p ! i) < para_id (p ! j)"

definition Swap :: "para list \<Rightarrow> nat \<Rightarrow> nat \<Rightarrow> para list" where
  "Swap p i j = (let tmp = p ! j; p1 = p[j := p ! i] in p1[i := tmp])"

text \<open>
  \<^verbatim>\<open>sort.Sort\<close> belongs to the Go standard library and is known here by its
  documented contract: it reads the data through \<^verbatim>\<open>Len\<close> and \<^verbatim>\<open>Less\<close>, changes it
  through \<^verbatim>\<open>Swap\<close> alone, and leaves it in ascending order as determined by
  \<^verbatim>\<open>Less\<close>; the sort is documented as not guaranteed to be stable. \<open>swapped p q\<close>
  holds when \<open>q\<close> comes from \<open>p\<close> by calls of \<^verbatim>\<open>Swap\<close> with indices in range, and
  \<open>sort_Sort p q\<close> when \<open>q\<close> is a state in which \<^verbatim>\<open>sort.Sort\<close> may leave the slice
  \<open>p\<close>.
\<close>

inductive swapped :: "para list \<Rightarrow> para list \<Rightarrow> bool" where
  swapped_refl: "swapped p p"
| swapped_Swap: "swapped p q \<Longrightarrow> i < Len q \<Longrightarrow> j < Len q \<Longrightarrow> swapped p (Swap q i j)"

definition sort_Sort :: "para list \<Rightarrow> para list \<Rightarrow> bool" where
  "sort_Sort p q \<longleftrightarrow> swapped p q \<and> (\<forall>j < Len q. \<forall>i < j. \<not> Less q j i)"

text \<open>
  \<^verbatim>\<open>toEpub\<close> sorts the chapters and adds one section per chapter in the order of the
  sorted slice: \<open>toEpub n secs\<close> holds when \<open>secs\<close> is the sequence of chapters handed to
  the packager.
\<close>

definition toEpub :: "novel \<Rightarrow> para list \<Rightarrow> bool" where
  "toEpub n secs \<longleftrightarrow> sort_Sort (paras n) secs"

section \<open>Scanning lemmas\<close>

lemma not_isDigit_rZhang: "\<not> isDigit rZhang"
  by (simp add: isDigit_def)

lemma takeWhile_run:
  assumes "list_all P run" and "rest = [] \<or> \<not> P (hd rest)"
  shows "takeWhile P (run @ rest) = run"
  using assms by (cases rest) (auto simp: list_all_iff)

lemma length_takeWhile_all:
  "length (takeWhile P xs) = length xs \<longleftrightarrow> list_all P xs"
  by (induction xs) auto

text \<open>
  The chapter case on a line split into the prefix, the maximal run of digit-class runes
  and the rest of the line.
\<close>

lemma paraTitleCase_run:
  assumes "list_all isDigit run" and "rest = [] \<or> \<not> isDigit (hd rest)"
  shows "paraTitleCase ta pc (rDi # run @ rest) n =
           (if run = [] then Inr (True, n)
            else if rest = [] then Inl IndexOutOfRange
            else if hd rest \<noteq> rZhang then Inr (True, n)
            else (case paraId ta pc run (1 + int (length run)) of
                    None \<Rightarrow> Inr (True, n)
                  | Some (idv, i') \<Rightarrow>
                      if 1 + int (length run) + int (length rest) < i' + 2
                      then Inl SliceBoundsOutOfRange
                      else Inr (False, n\<lparr>paras := paras n @
                             [\<lparr>para_id = idv,
                               para_title = drop (nat (i' + 2)) (rDi # run @ rest),
                               lines = []\<rparr>]\<rparr>)))"
proof -
  have scan: "takeWhile isDigit (drop 1 (rDi # run @ rest)) = run"
    using takeWhile_run [OF assms] by simp
  show ?thesis
    unfolding paraTitleCase_def scan Let_def
    by (cases rest) (auto simp: nth_append split: option.splits)
qed

lemma parseLine_rDi:
  "parseLine ta pc (rDi # rs) n lastStat = paraTitleCase ta pc (rDi # rs) n"
  by (simp add: parseLine_def)

section \<open>Content lines\<close>

text \<open>
  C1: a line that starts with a space or an ideographic space, read after a recognised
  line while the novel has no chapter yet. The claim asks for a silent drop; the source
  indexes \<^verbatim>\<open>n.paras[len(n.paras)-1]\<close> without a guard, so the call only returns
  (with the novel unchanged) when the whole line is white space, and panics otherwise.
\<close>

theorem orphan_content_line:
  assumes "line \<noteq> []" and "hd line = rSpace \<or> hd line = rWideSpace"
    and "paras n = []"
  shows "parseLine ta pc line n False =
           (if list_all (\<lambda>r. r = rSpace \<or> r = rTab \<or> r = rWideSpace) line
            then Inr (False, n) else Inl IndexOutOfRange)"
proof -
  from assms(1,2) have "parseLine ta pc line n False = contentCase line n False"
    by (cases line) (auto simp: parseLine_def)
  then show ?thesis
    using assms(3) by (simp add: contentCase_def Let_def length_takeWhile_all)
qed

theorem orphan_content_line_witness:
  "parseLine (\<lambda>s. (0, True)) (\<lambda>r. None) [rSpace, 120] \<lparr>title = [84], author = [], paras = []\<rparr> False
     = Inl IndexOutOfRange"
  using orphan_content_line [of "[rSpace, 120]" "\<lparr>title = [84], author = [], paras = []\<rparr>"
      "\<lambda>s. (0, True)" "\<lambda>r. None"]
  by simp

text \<open>
  C8: a line that starts with a space or an ideographic space, read when the previous
  line was unknown, is reported unknown and the novel stays as it was.
\<close>

theorem content_after_unknown_ignored:
  assumes "line \<noteq> []" and "hd line = rSpace \<or> hd line = rWideSpace"
  shows "parseLine ta pc line n True = Inr (True, n)"
  using assms by (cases line) (auto simp: parseLine_def contentCase_def)

theorem content_after_unknown_ignored_witness:
  "parseLine (\<lambda>s. (0, True)) (\<lambda>r. None) [rWideSpace, 120, 121]
     \<lparr>title = [], author = [], paras = [\<lparr>para_id = 1, para_title = [97], lines = []\<rparr>]\<rparr> True
   = Inr (True, \<lparr>title = [], author = [], paras = [\<lparr>para_id = 1, para_title = [97], lines = []\<rparr>]\<rparr>)"
  using content_after_unknown_ignored
    [of "[rWideSpace, 120, 121]" "\<lambda>s. (0, True)" "\<lambda>r. None"
        "\<lparr>title = [], author = [], paras = [\<lparr>para_id = 1, para_title = [97], lines = []\<rparr>]\<rparr>"]
  by simp

section \<open>Chapter headers\<close>

text \<open>
  C4: a line that starts with the chapter prefix whose run of digit-class runes is empty,
  or is not followed by the chapter suffix. The call returns unknown with the novel
  unchanged, except when the non-empty run reaches the end of the line: there the source
  reads \<^verbatim>\<open>runeLine[i]\<close> with \<^verbatim>\<open>i == len(runeLine)\<close> and panics.
\<close>

theorem malformed_chapter_header:
  assumes "line = rDi # run @ rest" and "list_all isDigit run"
    and "rest = [] \<or> \<not> isDigit (hd rest)"
    and "run = [] \<or> rest = [] \<or> hd rest \<noteq> rZhang"
  shows "parseLine ta pc line n lastStat =
           (if run \<noteq> [] \<and> rest = [] then Inl IndexOutOfRange else Inr (True, n))"
  using assms(4) unfolding assms(1) parseLine_rDi paraTitleCase_run [OF assms(2,3)]
  by auto

theorem malformed_chapter_header_witness:
  "parseLine (\<lambda>s. (0, True)) (\<lambda>r. None) [rDi, 49, 50] \<lparr>title = [], author = [], paras = []\<rparr> False
     = Inl IndexOutOfRange"
  using malformed_chapter_header [of "[rDi, 49, 50]" "[49, 50]" "[]" "\<lambda>s. (0, True)" "\<lambda>r. None"
      "\<lparr>title = [], author = [], paras = []\<rparr>" False]
  by (simp add: isDigit_def)

text \<open>
  A header on which the fallback loop has produced the number: the loop has left
  \<^verbatim>\<open>i\<close> at \<open>-1\<close>, so the title is sliced from offset one and holds the run and the
  suffix, where the other two ways of reading the number slice it from two past the run.
\<close>

lemma fallback_loop_title:
  assumes "run \<noteq> []" and "list_all isDigit run" and "\<not> isArabic (hd run)"
    and "ta run = (e, True)" and "altIdOf pc run = Some altId"
  shows "parseLine ta pc (rDi # run @ rZhang # rest) n lastStat =
           Inr (False, n\<lparr>paras := paras n @
             [\<lparr>para_id = altSum (rev altId) e 1,
               para_title = run @ rZhang # rest, lines = []\<rparr>]\<rparr>)"
proof -
  have "rZhang # rest = [] \<or> \<not> isDigit (hd (rZhang # rest))"
    using not_isDigit_rZhang by simp
  note split = paraTitleCase_run [OF assms(2) this]
  have hd: "run ! 0 = hd run"
    using assms(1) by (simp add: hd_conv_nth)
  show ?thesis
    unfolding parseLine_rDi split using assms(1,3,4,5)
    by (simp add: paraId_def hd)
qed

text \<open>
  C10, as stated: every line made of the chapter prefix, a non-empty run of digit-class
  runes and a final chapter suffix makes the call panic. It fails for a run the number
  parser rejects, such as an ASCII digit followed by a Chinese numeral: the call returns
  unknown before the title is sliced.
\<close>

theorem header_ending_at_suffix_counterexample:
  "parseLine (\<lambda>s. (0, True)) (\<lambda>r. None) [rDi, 49, rEr, rZhang]
      \<lparr>title = [], author = [], paras = []\<rparr> False
     = Inr (True, \<lparr>title = [], author = [], paras = []\<rparr>)"
  by (simp add: parseLine_def paraTitleCase_def isDigit_def paraId_def isArabic_def Atoi_def)

text \<open>
  C10, amended: on such a line the call panics at the slice \<^verbatim>\<open>runeLine[i+2:]\<close>
  when \<^verbatim>\<open>strconv.Atoi\<close> or \<open>ToArabicNumber\<close> has produced the number, and it returns
  unknown with the novel unchanged when \<^verbatim>\<open>strconv.Atoi\<close> rejects the run, or
  \<open>ToArabicNumber\<close> and then the character lookup of the fallback do. A call that
  returns has appended no chapter with an empty title.
\<close>

theorem header_ending_at_suffix:
  assumes "line = rDi # run @ [rZhang]" and "run \<noteq> []" and "list_all isDigit run"
  shows "(isArabic (hd run) \<longrightarrow>
            parseLine ta pc line n lastStat =
              (case Atoi run of
                 None \<Rightarrow> Inr (True, n)
               | Some idv \<Rightarrow> Inl SliceBoundsOutOfRange))
       \<and> (\<not> isArabic (hd run) \<and> \<not> snd (ta run) \<longrightarrow>
            parseLine ta pc line n lastStat = Inl SliceBoundsOutOfRange)
       \<and> (\<not> isArabic (hd run) \<and> snd (ta run) \<and> altIdOf pc run = None \<longrightarrow>
            parseLine ta pc line n lastStat = Inr (True, n))
       \<and> (\<forall>u n'. parseLine ta pc line n lastStat = Inr (u, n') \<longrightarrow>
            paras n' = paras n \<or> (\<exists>c. paras n' = paras n @ [c] \<and> para_title c \<noteq> []))"
proof -
  have "[rZhang] = [] \<or> \<not> isDigit (hd [rZhang])"
    using not_isDigit_rZhang by simp
  note split = paraTitleCase_run [OF assms(3) this]
  have hd: "run ! 0 = hd run"
    using assms(2) by (simp add: hd_conv_nth)
  obtain e err where strict: "ta run = (e, err)"
    by (cases "ta run")
  have arabic: "parseLine ta pc line n lastStat =
      (case Atoi run of None \<Rightarrow> Inr (True, n) | Some idv \<Rightarrow> Inl SliceBoundsOutOfRange)"
    if "isArabic (hd run)"
    unfolding assms(1) parseLine_rDi split using assms(2) that
    by (simp add: paraId_def hd split: option.splits)
  have strict_ok: "parseLine ta pc line n lastStat = Inl SliceBoundsOutOfRange"
    if "\<not> isArabic (hd run)" and "\<not> snd (ta run)"
    unfolding assms(1) parseLine_rDi split using assms(2) that strict
    by (simp add: paraId_def hd)
  have rejected: "parseLine ta pc line n lastStat = Inr (True, n)"
    if "\<not> isArabic (hd run)" and "snd (ta run)" and "altIdOf pc run = None"
    unfolding assms(1) parseLine_rDi split using assms(2) that strict
    by (simp add: paraId_def hd)
  have titled: "paras n' = paras n \<or> (\<exists>c. paras n' = paras n @ [c] \<and> para_title c \<noteq> [])"
    if ret: "parseLine ta pc line n lastStat = Inr (u, n')" for u n'
  proof (cases "isArabic (hd run)")
    case True
    from ret arabic [OF True] show ?thesis
      by (auto split: option.splits)
  next
    case False
    note na = this
    show ?thesis
    proof (cases "snd (ta run)")
      case False
      from ret strict_ok [OF na False] show ?thesis by simp
    next
      case True
      with strict have st: "ta run = (e, True)" by simp
      show ?thesis
      proof (cases "altIdOf pc run")
        case None
        from ret rejected [OF na True None] show ?thesis by simp
      next
        case (Some altId)
        from fallback_loop_title [where ta = ta and pc = pc and rest = "[]" and n = n
            and lastStat = lastStat, OF assms(2,3) na st Some] ret
        have "paras n' = paras n @
                [\<lparr>para_id = altSum (rev altId) e 1, para_title = run @ [rZhang], lines = []\<rparr>]"
          unfolding assms(1) by auto
        moreover have "para_title \<lparr>para_id = altSum (rev altId) e 1,
                         para_title = run @ [rZhang], lines = []\<rparr> \<noteq> []"
          by simp
        ultimately show ?thesis by blast
      qed
    qed
  qed
  from arabic strict_ok rejected titled show ?thesis by blast
qed

theorem header_ending_at_suffix_witness:
  "parseLine (\<lambda>s. (0, True)) (\<lambda>r. None) [rDi, 49, rZhang] \<lparr>title = [], author = [], paras = []\<rparr> False
     = Inl SliceBoundsOutOfRange
   \<and> parseLine (\<lambda>s. (7, False)) (\<lambda>r. None) [rDi, rQi, rZhang]
        \<lparr>title = [], author = [], paras = []\<rparr> False
     = Inl SliceBoundsOutOfRange
   \<and> parseLine (\<lambda>s. (0, True)) (\<lambda>r. None) [rDi, rQi, rZhang]
        \<lparr>title = [], author = [], paras = []\<rparr> False
     = Inr (True, \<lparr>title = [], author = [], paras = []\<rparr>)"
  using header_ending_at_suffix [of "[rDi, 49, rZhang]" "[49]" "\<lambda>s. (0, True)" "\<lambda>r. None"
      "\<lparr>title = [], author = [], paras = []\<rparr>" False]
    header_ending_at_suffix [of "[rDi, rQi, rZhang]" "[rQi]" "\<lambda>s. (7, False)" "\<lambda>r. None"
      "\<lparr>title = [], author = [], paras = []\<rparr>" False]
    header_ending_at_suffix [of "[rDi, rQi, rZhang]" "[rQi]" "\<lambda>s. (0, True)" "\<lambda>r. None"
      "\<lparr>title = [], author = [], paras = []\<rparr>" False]
  by (simp add: isDigit_def isArabic_def Atoi_def)

section \<open>The novel header\<close>

lemma take_eq_prefix:
  "n = length p \<Longrightarrow> (n \<le> length xs \<and> take n xs = p) \<longleftrightarrow> prefix p xs"
  by (metis append_eq_conv_conj prefix_def prefix_length_le take_is_prefix)

lemma novelHeaderCase_split:
  assumes "rRightQuote \<notin> set x"
  shows "novelHeaderCase (rLeftQuote # x @ rRightQuote # rest) n =
           Inr (False, n\<lparr>title := x,
                  author := (if prefix authorSep rest then drop 6 rest else [])\<rparr>)"
proof -
  have "takeWhile (\<lambda>r. r \<noteq> rRightQuote) (x @ rRightQuote # rest) = x"
    using assms by (induction x) auto
  then have scan:
    "takeWhile (\<lambda>r. r \<noteq> rRightQuote) (drop 1 (rLeftQuote # x @ rRightQuote # rest)) = x"
    by simp
  have sep: "(6 \<le> length rest \<and> take 6 rest = authorSep) \<longleftrightarrow> prefix authorSep rest"
    by (rule take_eq_prefix) (simp add: authorSep_def)
  have le: "int (1 + length x) \<le> int (length (rLeftQuote # x @ rRightQuote # rest)) - 7
              \<longleftrightarrow> 6 \<le> length rest"
    by auto
  have dr: "drop (1 + length x + 7) (rLeftQuote # x @ rRightQuote # rest) = drop 6 rest"
    by (simp add: drop_Cons')
  show ?thesis
    unfolding novelHeaderCase_def scan Let_def le dr
    using sep by auto
qed

text \<open>
  C6: on a line made of the left bracket, a text \<open>x\<close> without right bracket, the right
  bracket, the author separator and a text \<open>y\<close>, the call sets the title to \<open>x\<close> and
  the author to \<open>y\<close>; when the text \<open>rest\<close> after the right bracket does not start with
  the separator, it sets the title to \<open>x\<close> and the author to the empty string. Either
  way it returns false, and the previous title and author are overwritten.
\<close>

theorem title_author_header:
  assumes "rRightQuote \<notin> set x"
  shows "parseLine ta pc (rLeftQuote # x @ rRightQuote # authorSep @ y) n lastStat
           = Inr (False, n\<lparr>title := x, author := y\<rparr>)
       \<and> (\<not> prefix authorSep rest \<longrightarrow>
            parseLine ta pc (rLeftQuote # x @ rRightQuote # rest) n lastStat
              = Inr (False, n\<lparr>title := x, author := []\<rparr>))"
proof -
  have "length authorSep = 6" by (simp add: authorSep_def)
  then show ?thesis
    using novelHeaderCase_split [OF assms] by (simp add: parseLine_def)
qed

theorem title_author_header_witness:
  "parseLine (\<lambda>s. (0, True)) (\<lambda>r. None)
      [rLeftQuote, 77, 121, 32, 66, 111, 111, 107, rRightQuote, 32, 45, 32, 20316, 32773, 65306, 74, 97, 110, 101]
      \<lparr>title = [79, 108, 100], author = [65], paras = []\<rparr> False
     = Inr (False, \<lparr>title = [77, 121, 32, 66, 111, 111, 107], author = [74, 97, 110, 101], paras = []\<rparr>)
   \<and> parseLine (\<lambda>s. (0, True)) (\<lambda>r. None)
      [rLeftQuote, 77, 121, 32, 66, 111, 111, 107, rRightQuote]
      \<lparr>title = [79, 108, 100], author = [65], paras = []\<rparr> False
     = Inr (False, \<lparr>title = [77, 121, 32, 66, 111, 111, 107], author = [], paras = []\<rparr>)"
  using title_author_header [where x = "[77, 121, 32, 66, 111, 111, 107]" and rest = "[]"
      and ta = "\<lambda>s. (0, True)" and pc = "\<lambda>r. None" and y = "[74, 97, 110, 101]"
      and n = "\<lparr>title = [79, 108, 100], author = [65], paras = []\<rparr>" and lastStat = False]
  by (simp add: authorSep_def)

section \<open>Extra chapters\<close>

text \<open>
  C2, as stated: only a line that begins with the marker becomes an extra chapter, and
  the call returns true for it. The source returns false after appending the chapter,
  and its pattern is not anchored: a line that has the marker after other text is an
  extra chapter too.
\<close>

theorem extra_chapter_line_counterexample:
  "parseLine (\<lambda>s. (0, True)) (\<lambda>r. None) [30058, 22806, 65306]
      \<lparr>title = [], author = [], paras = []\<rparr> False
     = Inr (False, \<lparr>title = [], author = [],
         paras = [\<lparr>para_id = - 1, para_title = [30058, 22806, 65306], lines = []\<rparr>]\<rparr>)
   \<and> \<not> prefix fanwai [120, 30058, 22806, 65306]
   \<and> parseLine (\<lambda>s. (0, True)) (\<lambda>r. None) [120, 30058, 22806, 65306]
      \<lparr>title = [], author = [], paras = []\<rparr> False
     = Inr (False, \<lparr>title = [], author = [],
         paras = [\<lparr>para_id = - 1, para_title = [120, 30058, 22806, 65306], lines = []\<rparr>]\<rparr>)"
  by (simp add: parseLine_def defaultCase_def MatchString_def fanwai_def sublist_Cons_right)


text \<open>
  C2, amended: a non-empty line whose first rune is none of the left bracket, the two
  spaces and the chapter prefix becomes an extra chapter, with id \<open>-1\<close> and the whole
  line as title, exactly when it contains the marker anywhere; the call then returns
  false. Every other such line is reported unknown and changes nothing.
\<close>

theorem extra_chapter_line:
  assumes "line \<noteq> []" and "hd line \<notin> set [rLeftQuote, rSpace, rWideSpace, rDi]"
  shows "parseLine ta pc line n lastStat =
           (if sublist fanwai line
            then Inr (False, n\<lparr>paras := paras n @
                   [\<lparr>para_id = - 1, para_title = line, lines = []\<rparr>]\<rparr>)
            else Inr (True, n))"
  using assms by (cases line) (auto simp: parseLine_def defaultCase_def MatchString_def)

theorem extra_chapter_line_witness:
  "parseLine (\<lambda>s. (0, True)) (\<lambda>r. None) [30058, 22806, 65306, 120]
      \<lparr>title = [], author = [], paras = []\<rparr> True
     = Inr (False, \<lparr>title = [], author = [],
         paras = [\<lparr>para_id = - 1, para_title = [30058, 22806, 65306, 120], lines = []\<rparr>]\<rparr>)
   \<and> parseLine (\<lambda>s. (0, True)) (\<lambda>r. None) [30058, 22806, 120]
      \<lparr>title = [], author = [], paras = []\<rparr> True
     = Inr (True, \<lparr>title = [], author = [], paras = []\<rparr>)"
  using extra_chapter_line [of "[30058, 22806, 65306, 120]" "\<lambda>s. (0, True)" "\<lambda>r. None"
      "\<lparr>title = [], author = [], paras = []\<rparr>" True]
    extra_chapter_line [of "[30058, 22806, 120]" "\<lambda>s. (0, True)" "\<lambda>r. None"
      "\<lparr>title = [], author = [], paras = []\<rparr>" True]
  by (simp add: fanwai_def sublist_Cons_right)

section \<open>Chapters and lines are only appended\<close>

lemma update_last:
  "xs \<noteq> [] \<Longrightarrow> xs[length xs - 1 := v] = butlast xs @ [v]"
  by (induction xs rule: rev_induct) auto

lemma novelHeaderCase_shape:
  assumes "novelHeaderCase line n = Inr (u, n')"
  shows "\<exists>t a. n' = n\<lparr>title := t, author := a\<rparr>"
proof (cases "1 + length (takeWhile (\<lambda>r. r \<noteq> rRightQuote) (drop 1 line)) < length line")
  case True
  with assms show ?thesis
    unfolding novelHeaderCase_def Let_def by (simp only: if_True sum.inject prod.inject) blast
next
  case False
  with assms have "n' = n" by (simp add: novelHeaderCase_def)
  then have "n' = n\<lparr>title := title n, author := author n\<rparr>" by simp
  then show ?thesis by blast
qed

lemma contentCase_shape:
  assumes "contentCase line n lastStat = Inr (u, n')"
  shows "n' = n \<or> (\<exists>s. paras n \<noteq> [] \<and>
           n' = n\<lparr>paras := butlast (paras n) @
                   [(last (paras n))\<lparr>lines := lines (last (paras n)) @ [s]\<rparr>]\<rparr>)"
proof -
  let ?i = "length (takeWhile (\<lambda>r. r = rSpace \<or> r = rTab \<or> r = rWideSpace) line)"
  show ?thesis
  proof (cases "lastStat \<or> ?i = length line")
    case True
    with assms show ?thesis by (auto simp: contentCase_def Let_def split: if_splits)
  next
    case False
    with assms have ne: "paras n \<noteq> []"
      by (auto simp: contentCase_def Let_def split: if_splits)
    let ?l = "last (paras n)"
    have p: "paras n ! (length (paras n) - 1) = ?l"
      using ne by (simp add: last_conv_nth)
    have "contentCase line n lastStat =
            Inr (False, n\<lparr>paras := (paras n)[length (paras n) - 1 :=
                          ?l\<lparr>lines := lines ?l @ [drop ?i line]\<rparr>]\<rparr>)"
      unfolding contentCase_def Let_def p using False ne by simp
    with assms have "n' = n\<lparr>paras := butlast (paras n) @
                          [?l\<lparr>lines := lines ?l @ [drop ?i line]\<rparr>]\<rparr>"
      unfolding update_last [OF ne] by simp
    with ne show ?thesis by blast
  qed
qed

lemma appended_shape:
  assumes "n' = n\<lparr>paras := paras n @ [\<lparr>para_id = i, para_title = t, lines = []\<rparr>]\<rparr>"
  shows "\<exists>c. lines c = [] \<and> n' = n\<lparr>paras := paras n @ [c]\<rparr>"
proof -
  have "lines \<lparr>para_id = i, para_title = t, lines = []\<rparr> = []" by simp
  with assms show ?thesis by blast
qed

lemma paraTitleCase_shape:
  assumes "paraTitleCase ta pc line n = Inr (u, n')"
  shows "n' = n \<or> (\<exists>c. lines c = [] \<and> n' = n\<lparr>paras := paras n @ [c]\<rparr>)"
  using assms unfolding paraTitleCase_def Let_def
  by (auto split: if_splits option.splits prod.splits intro!: appended_shape)

lemma defaultCase_shape:
  assumes "defaultCase line n = Inr (u, n')"
  shows "n' = n \<or> (\<exists>c. lines c = [] \<and> n' = n\<lparr>paras := paras n @ [c]\<rparr>)"
  using assms unfolding defaultCase_def
  by (auto split: if_splits intro!: appended_shape)

text \<open>
  C9: a call that returns has changed the novel in one of three ways only: it set the
  title and the author (or nothing at all), it appended one chapter without lines, or it
  appended one line to the last chapter. So the chapters before the call are a prefix of
  the chapters after it, each with its id, its title, and its lines as a prefix of its
  new lines. (A call that panics has not written to the novel.)
\<close>

theorem parseLine_append_only:
  assumes "parseLine ta pc line n lastStat = Inr (u, n')"
  shows "((\<exists>t a. n' = n\<lparr>title := t, author := a\<rparr>)
          \<or> (\<exists>c. lines c = [] \<and> n' = n\<lparr>paras := paras n @ [c]\<rparr>)
          \<or> (\<exists>s. paras n \<noteq> [] \<and>
                n' = n\<lparr>paras := butlast (paras n) @
                        [(last (paras n))\<lparr>lines := lines (last (paras n)) @ [s]\<rparr>]\<rparr>))
       \<and> (\<exists>qs new. paras n' = qs @ new \<and> list_all2 keeps (paras n) qs)"
proof -
  have same: "\<exists>t a. n = n\<lparr>title := t, author := a\<rparr>"
  proof -
    have "n = n\<lparr>title := title n, author := author n\<rparr>" by simp
    then show ?thesis by blast
  qed
  have shape: "(\<exists>t a. n' = n\<lparr>title := t, author := a\<rparr>)
          \<or> (\<exists>c. lines c = [] \<and> n' = n\<lparr>paras := paras n @ [c]\<rparr>)
          \<or> (\<exists>s. paras n \<noteq> [] \<and>
                n' = n\<lparr>paras := butlast (paras n) @
                        [(last (paras n))\<lparr>lines := lines (last (paras n)) @ [s]\<rparr>]\<rparr>)"
    using assms same novelHeaderCase_shape [of line n u n']
      contentCase_shape [of line n lastStat u n']
      paraTitleCase_shape [of ta pc line n u n'] defaultCase_shape [of line n u n']
    unfolding parseLine_def
    by (auto split: if_splits)
  have refl: "list_all2 keeps xs xs" for xs
    by (simp add: list_all2_refl keeps_def)
  from shape have "\<exists>qs new. paras n' = qs @ new \<and> list_all2 keeps (paras n) qs"
  proof (elim disjE exE conjE)
    fix t a assume "n' = n\<lparr>title := t, author := a\<rparr>"
    then have "paras n' = paras n @ []" by simp
    with refl show ?thesis by blast
  next
    fix c assume "n' = n\<lparr>paras := paras n @ [c]\<rparr>"
    then have "paras n' = paras n @ [c]" by simp
    with refl show ?thesis by blast
  next
    fix s
    let ?l = "last (paras n)"
    assume ne: "paras n \<noteq> []"
      and "n' = n\<lparr>paras := butlast (paras n) @ [?l\<lparr>lines := lines ?l @ [s]\<rparr>]\<rparr>"
    then have eq: "paras n' = (butlast (paras n) @ [?l\<lparr>lines := lines ?l @ [s]\<rparr>]) @ []"
      by simp
    have "list_all2 keeps (butlast (paras n) @ [?l])
            (butlast (paras n) @ [?l\<lparr>lines := lines ?l @ [s]\<rparr>])"
      by (intro list_all2_appendI refl) (simp add: keeps_def)
    with ne have "list_all2 keeps (paras n) (butlast (paras n) @ [?l\<lparr>lines := lines ?l @ [s]\<rparr>])"
      by simp
    with eq show ?thesis by blast
  qed
  with shape show ?thesis by blast
qed

theorem parseLine_append_only_witness:
  "parseLine (\<lambda>s. (0, True)) (\<lambda>r. None) [rWideSpace, 72, 105]
      \<lparr>title = [84], author = [], paras = [\<lparr>para_id = 1, para_title = [97], lines = [[120]]\<rparr>]\<rparr> False
     = Inr (False, \<lparr>title = [84], author = [],
              paras = [\<lparr>para_id = 1, para_title = [97], lines = [[120], [72, 105]]\<rparr>]\<rparr>)
   \<and> (\<exists>qs new.
         paras \<lparr>title = [84], author = [],
              paras = [\<lparr>para_id = 1, para_title = [97], lines = [[120], [72, 105]]\<rparr>]\<rparr> = qs @ new
       \<and> list_all2 keeps
             (paras \<lparr>title = [84], author = [],
                paras = [\<lparr>para_id = 1, para_title = [97], lines = [[120]]\<rparr>]\<rparr>) qs)"
proof -
  have run: "parseLine (\<lambda>s. (0, True)) (\<lambda>r. None) [rWideSpace, 72, 105]
      \<lparr>title = [84], author = [], paras = [\<lparr>para_id = 1, para_title = [97], lines = [[120]]\<rparr>]\<rparr> False
     = Inr (False, \<lparr>title = [84], author = [],
              paras = [\<lparr>para_id = 1, para_title = [97], lines = [[120], [72, 105]]\<rparr>]\<rparr>)"
    by (simp add: parseLine_def contentCase_def)
  from parseLine_append_only [OF run] run show ?thesis by blast
qed

section \<open>The chapter number\<close>

lemma wrap64_mod: "wrap64 x mod 2 ^ 64 = x mod 2 ^ 64"
proof -
  have "wrap64 x mod 2 ^ 64 = ((x + 2 ^ 63) mod 2 ^ 64 - 2 ^ 63) mod 2 ^ 64"
    by (simp add: wrap64_def)
  also have "\<dots> = (x + 2 ^ 63 - 2 ^ 63) mod 2 ^ 64"
    by (rule mod_diff_left_eq)
  finally show ?thesis by simp
qed

lemma wrap64_cong: "x mod 2 ^ 64 = y mod 2 ^ 64 \<Longrightarrow> wrap64 x = wrap64 y"
  unfolding wrap64_def by (metis mod_add_left_eq)

lemma wrap64_idem: "wrap64 (wrap64 x) = wrap64 x"
  by (rule wrap64_cong) (rule wrap64_mod)

lemma wrap64_exact: "- (2 ^ 63) \<le> x \<Longrightarrow> x < 2 ^ 63 \<Longrightarrow> wrap64 x = x"
  by (simp add: wrap64_def)

text \<open>The digits of \<^verbatim>\<open>altId\<close> read from the last one, as the loop visits them.\<close>

lemma decimal_snoc: "decimal (ds @ [d]) = 10 * decimal ds + d"
  by (induction ds) (simp_all add: algebra_simps)

lemma altSum_wrapped: "altSum as (wrap64 x) f = wrap64 (altSum as (wrap64 x) f)"
  by (induction as arbitrary: x f) (simp_all add: wrap64_idem)

lemma wrap64_add_left: "wrap64 (wrap64 a + b) = wrap64 (a + b)"
  by (rule wrap64_cong) (metis wrap64_mod mod_add_left_eq)

lemma wrap64_add_right: "wrap64 (a + wrap64 b) = wrap64 (a + b)"
  by (rule wrap64_cong) (metis wrap64_mod mod_add_right_eq)

lemma wrap64_mult_left: "wrap64 (wrap64 a * b) = wrap64 (a * b)"
  by (rule wrap64_cong) (metis wrap64_mod mod_mult_left_eq)

lemma altSum_wrap64:
  "wrap64 (altSum as idv f) = wrap64 (idv + f * decimal (rev as))"
proof (induction as arbitrary: idv f)
  case Nil
  show ?case by simp
next
  case (Cons a as)
  have "wrap64 (altSum (a # as) idv f) =
          wrap64 (wrap64 (idv + wrap64 (a * f)) + wrap64 (f * 10) * decimal (rev as))"
    by (simp only: altSum.simps Cons.IH)
  also have "\<dots> = wrap64 (idv + wrap64 (a * f) + wrap64 (f * 10) * decimal (rev as))"
    by (rule wrap64_add_left)
  also have "\<dots> = wrap64 (idv + wrap64 (a * f) + wrap64 (wrap64 (f * 10) * decimal (rev as)))"
    by (simp only: wrap64_add_right)
  also have "\<dots> = wrap64 (idv + wrap64 (a * f) + wrap64 (f * 10 * decimal (rev as)))"
    by (simp only: wrap64_mult_left)
  also have "\<dots> = wrap64 (idv + wrap64 (a * f) + f * 10 * decimal (rev as))"
    by (simp only: wrap64_add_right)
  also have "\<dots> = wrap64 (wrap64 (a * f) + (idv + f * 10 * decimal (rev as)))"
    by (simp only: ac_simps)
  also have "\<dots> = wrap64 (a * f + (idv + f * 10 * decimal (rev as)))"
    by (rule wrap64_add_left)
  also have "\<dots> = wrap64 (idv + f * decimal (rev (a # as)))"
    by (simp add: decimal_snoc algebra_simps)
  finally show ?case .
qed

lemma altSum_value:
  assumes "altId \<noteq> []"
  shows "altSum (rev altId) idv 1 = wrap64 (idv + decimal altId)"
proof -
  from assms obtain a as where r: "rev altId = a # as"
    by (cases "rev altId") auto
  have "altSum (rev altId) idv 1 = wrap64 (altSum (rev altId) idv 1)"
    unfolding r altSum.simps by (rule altSum_wrapped)
  also have "\<dots> = wrap64 (idv + decimal altId)"
    by (simp add: altSum_wrap64)
  finally show ?thesis .
qed

lemma digitsValue_decimal:
  "digitsValue cs acc = acc * 10 ^ length cs + decimal (map (\<lambda>c. c - 48) cs)"
  by (induction cs arbitrary: acc) (simp_all add: algebra_simps)

lemma decimal_nonneg: "list_all (\<lambda>d. 0 \<le> d) ds \<Longrightarrow> 0 \<le> decimal ds"
  by (induction ds) simp_all

lemma altIdOf_None: "altIdOf pc rs = None \<longleftrightarrow> (\<exists>r \<in> set rs. pc r = None)"
  by (induction rs) (auto split: option.splits)

lemma altIdOf_Some: "map pc rs = map Some ds \<Longrightarrow> altIdOf pc rs = Some ds"
  by (induction rs arbitrary: ds) (auto simp: Cons_eq_map_conv)

lemma parseLine_number_rejected:
  assumes "run \<noteq> []" and "list_all isDigit run"
    and "paraId ta pc run (1 + int (length run)) = None"
  shows "parseLine ta pc (rDi # run @ rZhang # rest) n lastStat = Inr (True, n)"
proof -
  have "rZhang # rest = [] \<or> \<not> isDigit (hd (rZhang # rest))"
    using not_isDigit_rZhang by simp
  from paraTitleCase_run [OF assms(2) this] show ?thesis
    unfolding parseLine_rDi using assms(1,3) by simp
qed

text \<open>
  C5, as stated: in the fallback a run with a magnitude word is rejected and the line
  reported unknown. The source rejects a run only when the character lookup returns an
  error; with the lookup as section 1 of the specification describes it, which gives
  the magnitude words a value, the run of one, ten, ten is given the number
  \<open>1 * 100 + 10 * 10 + 10\<close> and its header line is not reported unknown.
\<close>

theorem fallback_lookup_error_counterexample:
  "map_option fst (paraId (\<lambda>s. (0, True)) charValue [rYi, rShi, rShi] 4) = Some 210
   \<and> parseLine (\<lambda>s. (0, True)) charValue [rDi, rYi, rShi, rShi, rZhang, 32, 65]
        \<lparr>title = [], author = [], paras = []\<rparr> False
       \<noteq> Inr (True, \<lparr>title = [], author = [], paras = []\<rparr>)"
  by (simp add: parseLine_def paraTitleCase_def isDigit_def paraId_def isArabic_def
      charValue_def wrap64_def)

text \<open>
  C5, amended: in the fallback, taken when \<open>ToArabicNumber\<close> returns an error on a run
  that does not start with an ASCII digit, the number is rejected exactly when the
  character lookup returns an error for some rune of the run, and the header line is
  then reported unknown with the novel unchanged. The source has no test for magnitude
  words of its own.
\<close>

theorem fallback_lookup_error:
  assumes "run \<noteq> []" and "list_all isDigit run"
    and "\<not> isArabic (hd run)" and "snd (ta run)"
  shows "(paraId ta pc run i = None \<longleftrightarrow> (\<exists>r \<in> set run. pc r = None))
       \<and> ((\<exists>r \<in> set run. pc r = None) \<longrightarrow>
            parseLine ta pc (rDi # run @ rZhang # rest) n lastStat = Inr (True, n))"
proof -
  have hd: "run ! 0 = hd run"
    using assms(1) by (simp add: hd_conv_nth)
  from assms(4) obtain e where strict: "ta run = (e, True)"
    by (cases "ta run") auto
  have fallback: "paraId ta pc run k =
      (case altIdOf pc run of None \<Rightarrow> None
       | Some altId \<Rightarrow> Some (altSum (rev altId) e 1, - 1))" for k
    using assms(3) strict by (simp add: paraId_def hd)
  have iff: "paraId ta pc run k = None \<longleftrightarrow> (\<exists>r \<in> set run. pc r = None)" for k
    unfolding fallback altIdOf_None [symmetric] by (simp split: option.splits)
  have rej: "parseLine ta pc (rDi # run @ rZhang # rest) n lastStat = Inr (True, n)"
    if "\<exists>r \<in> set run. pc r = None"
    using parseLine_number_rejected [OF assms(1,2)] iff that by blast
  from iff [of i] rej show ?thesis by blast
qed

theorem fallback_lookup_error_witness:
  "paraId (\<lambda>s. (0, True)) charValue [rYi, 50] 3 = None
   \<and> parseLine (\<lambda>s. (0, True)) charValue [rDi, rYi, 50, rZhang, 32, 65]
        \<lparr>title = [], author = [], paras = []\<rparr> False
       = Inr (True, \<lparr>title = [], author = [], paras = []\<rparr>)"
  using fallback_lookup_error [where run = "[rYi, 50]" and ta = "\<lambda>s. (0, True)"
      and pc = charValue and rest = "[32, 65]"
      and n = "\<lparr>title = [], author = [], paras = []\<rparr>" and lastStat = False and i = 3]
  by (simp add: isDigit_def isArabic_def charValue_def)

text \<open>
  C7, as stated: every run that starts with an ASCII digit yields its base-10 value, and
  every run of plain digit glyphs that is no compound numeral yields its positional
  value. A run of an ASCII digit followed by a Chinese numeral is rejected, so is a run
  of ASCII digits whose value is \<open>2 ^ 63\<close>, and the sum of the fallback loop wraps around
  on twenty glyphs for nine.
\<close>

theorem chapter_number_value_counterexample:
  "paraId (\<lambda>s. (0, True)) charValue [49, rEr] 3 = None
   \<and> paraId (\<lambda>s. (0, True)) charValue
        [57, 50, 50, 51, 51, 55, 50, 48, 51, 54, 56, 53, 52, 55, 55, 53, 56, 48, 56] 20 = None
   \<and> paraId (\<lambda>s. (0, True)) charValue
        [rJiu, rJiu, rJiu, rJiu, rJiu, rJiu, rJiu, rJiu, rJiu, rJiu,
         rJiu, rJiu, rJiu, rJiu, rJiu, rJiu, rJiu, rJiu, rJiu, rJiu] 21
       = Some (7766279631452241919, - 1)"
  by (simp add: paraId_def isArabic_def Atoi_def charValue_def wrap64_def)

text \<open>
  C7, amended. A non-empty run that starts with an ASCII digit yields its base-10 value
  when it holds ASCII digits only and the value is below \<open>2 ^ 63\<close>; every other such
  run is rejected, and its header line is reported unknown with the novel unchanged. A
  non-empty run that does not start with an ASCII digit, on which \<open>ToArabicNumber\<close>
  returns zero with an error and whose runes the character lookup maps to the values
  \<open>ds\<close>, yields the positional value of \<open>ds\<close> reduced to the 64-bit range, which is the
  positional value itself when that lies in the range.
\<close>

theorem chapter_number_value:
  "(run \<noteq> [] \<and> isArabic (hd run) \<longrightarrow>
      map_option fst (paraId ta pc run i) =
        (if list_all isArabic run \<and> decimal (map (\<lambda>c. c - 48) run) < 2 ^ 63
         then Some (decimal (map (\<lambda>c. c - 48) run)) else None))
   \<and> (run \<noteq> [] \<and> isArabic (hd run) \<and> list_all isDigit run
        \<and> \<not> (list_all isArabic run \<and> decimal (map (\<lambda>c. c - 48) run) < 2 ^ 63) \<longrightarrow>
      parseLine ta pc (rDi # run @ rZhang # rest) n lastStat = Inr (True, n))
   \<and> (run \<noteq> [] \<and> \<not> isArabic (hd run) \<and> ta run = (0, True)
        \<and> map pc run = map Some ds \<longrightarrow>
      map_option fst (paraId ta pc run i) = Some (wrap64 (decimal ds))
      \<and> (- (2 ^ 63) \<le> decimal ds \<and> decimal ds < 2 ^ 63 \<longrightarrow>
           map_option fst (paraId ta pc run i) = Some (decimal ds)))"
proof -
  have arabic: "map_option fst (paraId ta pc run k) =
        (if list_all isArabic run \<and> decimal (map (\<lambda>c. c - 48) run) < 2 ^ 63
         then Some (decimal (map (\<lambda>c. c - 48) run)) else None)"
    if ne: "run \<noteq> []" and ar: "isArabic (hd run)" for k
  proof -
    from ne have h: "run ! 0 = hd run"
      by (simp add: hd_conv_nth)
    from ar have nosign: "hd run \<noteq> 43" "hd run \<noteq> 45"
      by (auto simp: isArabic_def)
    have "Atoi run =
        (if list_all isArabic run \<and> decimal (map (\<lambda>c. c - 48) run) < 2 ^ 63
         then Some (decimal (map (\<lambda>c. c - 48) run)) else None)"
      using ne nosign by (simp add: Atoi_def Let_def digitsValue_decimal)
    then show ?thesis
      using ar h by (simp add: paraId_def split: option.splits)
  qed
  have rejected: "parseLine ta pc (rDi # run @ rZhang # rest) n lastStat = Inr (True, n)"
    if ne: "run \<noteq> []" and ar: "isArabic (hd run)" and dg: "list_all isDigit run"
      and bad: "\<not> (list_all isArabic run \<and> decimal (map (\<lambda>c. c - 48) run) < 2 ^ 63)"
  proof -
    from arabic [OF ne ar, of "1 + int (length run)"] bad
    have "paraId ta pc run (1 + int (length run)) = None"
      by (simp split: if_splits)
    with ne dg show ?thesis by (rule parseLine_number_rejected)
  qed
  have fallback: "map_option fst (paraId ta pc run i) = Some (wrap64 (decimal ds))"
    if ne: "run \<noteq> []" and na: "\<not> isArabic (hd run)" and strict: "ta run = (0, True)"
      and digits: "map pc run = map Some ds"
  proof -
    from ne have h: "run ! 0 = hd run"
      by (simp add: hd_conv_nth)
    from digits ne have ds: "ds \<noteq> []" by auto
    have "map_option fst (paraId ta pc run i) = Some (altSum (rev ds) 0 1)"
      using na strict altIdOf_Some [OF digits] by (simp add: paraId_def h)
    also have "altSum (rev ds) 0 1 = wrap64 (0 + decimal ds)"
      using ds by (rule altSum_value)
    finally show ?thesis by simp
  qed
  from arabic [of i] rejected fallback show ?thesis
    by (auto simp: wrap64_exact)
qed

theorem chapter_number_value_witness:
  "map_option fst (paraId (\<lambda>s. (0, True)) charValue [49, 50] 3) = Some 12
   \<and> parseLine (\<lambda>s. (0, True)) charValue [rDi, 49, rEr, rZhang, 32, 65]
        \<lparr>title = [], author = [], paras = []\<rparr> False
       = Inr (True, \<lparr>title = [], author = [], paras = []\<rparr>)
   \<and> map_option fst (paraId (\<lambda>s. (0, True)) charValue [rYi, rEr, rSan] 4) = Some 123"
  using chapter_number_value [where run = "[49, 50]" and ta = "\<lambda>s. (0, True)" and pc = charValue
      and i = 3]
    chapter_number_value [where run = "[49, rEr]" and ta = "\<lambda>s. (0, True)" and pc = charValue
      and rest = "[32, 65]" and n = "\<lparr>title = [], author = [], paras = []\<rparr>"
      and lastStat = False]
    chapter_number_value [where run = "[rYi, rEr, rSan]" and ta = "\<lambda>s. (0, True)"
      and pc = charValue and ds = "[1, 2, 3]" and i = 4]
  by (simp add: isArabic_def isDigit_def charValue_def wrap64_def)

section \<open>The order of the chapters\<close>

lemma mset_Swap: "i < Len q \<Longrightarrow> j < Len q \<Longrightarrow> mset (Swap q i j) = mset q"
  by (simp add: Swap_def Len_def mset_swap)

lemma swapped_mset: "swapped p q \<Longrightarrow> mset q = mset p"
  by (induction rule: swapped.induct) (simp_all add: mset_Swap)

lemma ascending_sorted:
  assumes "\<forall>j < Len q. \<forall>i < j. \<not> Less q j i"
  shows "sorted (map para_id q)"
  unfolding sorted_iff_nth_mono_less
proof (intro allI impI)
  fix i j assume "i < j" and "j < length (map para_id q)"
  with assms have "\<not> para_id (q ! j) < para_id (q ! i)"
    by (simp add: Len_def Less_def)
  with \<open>i < j\<close> \<open>j < length (map para_id q)\<close> show "map para_id q ! i \<le> map para_id q ! j"
    by simp
qed

lemma swapped_trans: "swapped q r \<Longrightarrow> swapped p q \<Longrightarrow> swapped p r"
  by (induction rule: swapped.induct) (auto intro: swapped_Swap)

lemma swapped_Cons: "swapped p q \<Longrightarrow> swapped (x # p) (x # q)"
proof (induction rule: swapped.induct)
  case (swapped_refl p)
  show ?case by (rule swapped.swapped_refl)
next
  case (swapped_Swap p q i j)
  have "Swap (x # q) (Suc i) (Suc j) = x # Swap q i j"
    by (simp add: Swap_def)
  moreover have "swapped (x # p) (Swap (x # q) (Suc i) (Suc j))"
    using swapped_Swap by (intro swapped.swapped_Swap) (simp_all add: Len_def)
  ultimately show ?case by simp
qed

text \<open>Every reordering of a slice can be reached by calls of \<^verbatim>\<open>Swap\<close>.\<close>

lemma perm_swapped: "mset p = mset q \<Longrightarrow> swapped p q"
proof (induction q arbitrary: p)
  case Nil
  then show ?case by (simp add: swapped_refl)
next
  case (Cons y q)
  from Cons.prems have "y \<in> set p"
    by (metis list.set_intros(1) mset_eq_setD)
  then obtain k where k: "k < length p" and y: "p ! k = y"
    by (auto simp: in_set_conv_nth)
  let ?p1 = "Swap p 0 k"
  from k have len: "0 < Len p" "k < Len p"
    by (auto simp: Len_def)
  have step: "swapped p ?p1"
    using len by (intro swapped_Swap swapped_refl)
  from k have ne: "p \<noteq> []" by auto
  have "?p1 \<noteq> []" and "hd ?p1 = y"
    using k y ne by (simp_all add: Swap_def hd_conv_nth)
  then have p1: "?p1 = y # tl ?p1"
    by (cases ?p1) simp_all
  have "mset ?p1 = mset (y # q)"
    using len Cons.prems by (simp add: mset_Swap)
  with p1 have "mset (tl ?p1) = mset q"
    by (metis add_mset_add_mset_same_iff mset.simps(2))
  then have "swapped (tl ?p1) q" by (rule Cons.IH)
  then have "swapped (y # tl ?p1) (y # q)" by (rule swapped_Cons)
  with p1 have "swapped ?p1 (y # q)" by simp
  then show ?case using step by (rule swapped_trans)
qed

text \<open>
  C3, as stated: the chapters reach the packager in the order of the stable sort by id.
  Take a chapter with id \<open>1\<close> followed by twelve extra chapters. The quicksort of
  \<^verbatim>\<open>sort.Sort\<close> (Go 1.19 and later) picks the element at index 6 as pivot and
  exchanges it with the element at index 0; the partition moves nothing else, and the
  insertion sort on indices 1 to 12 carries the numbered chapter to the end by the
  exchanges of 7 and 6, 8 and 7, up to 12 and 11. The seventh chapter of the input is
  handed over first, before the six extra chapters that preceded it.
\<close>

theorem chapters_sorted_by_id_counterexample:
  "toEpub \<lparr>title = [], author = [],
       paras = [\<lparr>para_id = 1, para_title = [84], lines = []\<rparr>,
                \<lparr>para_id = - 1, para_title = [97], lines = []\<rparr>,
                \<lparr>para_id = - 1, para_title = [98], lines = []\<rparr>,
                \<lparr>para_id = - 1, para_title = [99], lines = []\<rparr>,
                \<lparr>para_id = - 1, para_title = [100], lines = []\<rparr>,
                \<lparr>para_id = - 1, para_title = [101], lines = []\<rparr>,
                \<lparr>para_id = - 1, para_title = [102], lines = []\<rparr>,
                \<lparr>para_id = - 1, para_title = [103], lines = []\<rparr>,
                \<lparr>para_id = - 1, para_title = [104], lines = []\<rparr>,
                \<lparr>para_id = - 1, para_title = [105], lines = []\<rparr>,
                \<lparr>para_id = - 1, para_title = [106], lines = []\<rparr>,
                \<lparr>para_id = - 1, para_title = [107], lines = []\<rparr>,
                \<lparr>para_id = - 1, para_title = [108], lines = []\<rparr>]\<rparr>
      [\<lparr>para_id = - 1, para_title = [102], lines = []\<rparr>,
       \<lparr>para_id = - 1, para_title = [97], lines = []\<rparr>,
       \<lparr>para_id = - 1, para_title = [98], lines = []\<rparr>,
       \<lparr>para_id = - 1, para_title = [99], lines = []\<rparr>,
       \<lparr>para_id = - 1, para_title = [100], lines = []\<rparr>,
       \<lparr>para_id = - 1, para_title = [101], lines = []\<rparr>,
       \<lparr>para_id = - 1, para_title = [103], lines = []\<rparr>,
       \<lparr>para_id = - 1, para_title = [104], lines = []\<rparr>,
       \<lparr>para_id = - 1, para_title = [105], lines = []\<rparr>,
       \<lparr>para_id = - 1, para_title = [106], lines = []\<rparr>,
       \<lparr>para_id = - 1, para_title = [107], lines = []\<rparr>,
       \<lparr>para_id = - 1, para_title = [108], lines = []\<rparr>,
       \<lparr>para_id = 1, para_title = [84], lines = []\<rparr>]
   \<and> [\<lparr>para_id = - 1, para_title = [102], lines = []\<rparr>,
       \<lparr>para_id = - 1, para_title = [97], lines = []\<rparr>,
       \<lparr>para_id = - 1, para_title = [98], lines = []\<rparr>,
       \<lparr>para_id = - 1, para_title = [99], lines = []\<rparr>,
       \<lparr>para_id = - 1, para_title = [100], lines = []\<rparr>,
       \<lparr>para_id = - 1, para_title = [101], lines = []\<rparr>,
       \<lparr>para_id = - 1, para_title = [103], lines = []\<rparr>,
       \<lparr>para_id = - 1, para_title = [104], lines = []\<rparr>,
       \<lparr>para_id = - 1, para_title = [105], lines = []\<rparr>,
       \<lparr>para_id = - 1, para_title = [106], lines = []\<rparr>,
       \<lparr>para_id = - 1, para_title = [107], lines = []\<rparr>,
       \<lparr>para_id = - 1, para_title = [108], lines = []\<rparr>,
       \<lparr>para_id = 1, para_title = [84], lines = []\<rparr>]
     \<noteq> sort_key para_id
        [\<lparr>para_id = 1, para_title = [84], lines = []\<rparr>,
         \<lparr>para_id = - 1, para_title = [97], lines = []\<rparr>,
         \<lparr>para_id = - 1, para_title = [98], lines = []\<rparr>,
         \<lparr>para_id = - 1, para_title = [99], lines = []\<rparr>,
         \<lparr>para_id = - 1, para_title = [100], lines = []\<rparr>,
         \<lparr>para_id = - 1, para_title = [101], lines = []\<rparr>,
         \<lparr>para_id = - 1, para_title = [102], lines = []\<rparr>,
         \<lparr>para_id = - 1, para_title = [103], lines = []\<rparr>,
         \<lparr>para_id = - 1, para_title = [104], lines = []\<rparr>,
         \<lparr>para_id = - 1, para_title = [105], lines = []\<rparr>,
         \<lparr>para_id = - 1, para_title = [106], lines = []\<rparr>,
         \<lparr>para_id = - 1, para_title = [107], lines = []\<rparr>,
         \<lparr>para_id = - 1, para_title = [108], lines = []\<rparr>]"
proof -
  let ?c = "\<lparr>para_id = 1, para_title = [84], lines = []\<rparr>"
  let ?x1 = "\<lparr>para_id = - 1, para_title = [97], lines = []\<rparr>"
  let ?x2 = "\<lparr>para_id = - 1, para_title = [98], lines = []\<rparr>"
  let ?x3 = "\<lparr>para_id = - 1, para_title = [99], lines = []\<rparr>"
  let ?x4 = "\<lparr>para_id = - 1, para_title = [100], lines = []\<rparr>"
  let ?x5 = "\<lparr>para_id = - 1, para_title = [101], lines = []\<rparr>"
  let ?x6 = "\<lparr>para_id = - 1, para_title = [102], lines = []\<rparr>"
  let ?x7 = "\<lparr>para_id = - 1, para_title = [103], lines = []\<rparr>"
  let ?x8 = "\<lparr>para_id = - 1, para_title = [104], lines = []\<rparr>"
  let ?x9 = "\<lparr>para_id = - 1, para_title = [105], lines = []\<rparr>"
  let ?x10 = "\<lparr>para_id = - 1, para_title = [106], lines = []\<rparr>"
  let ?x11 = "\<lparr>para_id = - 1, para_title = [107], lines = []\<rparr>"
  let ?x12 = "\<lparr>para_id = - 1, para_title = [108], lines = []\<rparr>"
  have s0: "swapped [?c, ?x1, ?x2, ?x3, ?x4, ?x5, ?x6, ?x7, ?x8, ?x9, ?x10, ?x11, ?x12] [?c, ?x1, ?x2, ?x3, ?x4, ?x5, ?x6, ?x7, ?x8, ?x9, ?x10, ?x11, ?x12]"
    by (rule swapped_refl)
  have e1: "Swap [?c, ?x1, ?x2, ?x3, ?x4, ?x5, ?x6, ?x7, ?x8, ?x9, ?x10, ?x11, ?x12] 0 6 = [?x6, ?x1, ?x2, ?x3, ?x4, ?x5, ?c, ?x7, ?x8, ?x9, ?x10, ?x11, ?x12]"
    by (simp add: Swap_def)
  have s1: "swapped [?c, ?x1, ?x2, ?x3, ?x4, ?x5, ?x6, ?x7, ?x8, ?x9, ?x10, ?x11, ?x12] [?x6, ?x1, ?x2, ?x3, ?x4, ?x5, ?c, ?x7, ?x8, ?x9, ?x10, ?x11, ?x12]"
    using swapped_Swap [OF s0, of 0 6] by (simp only: e1) (simp add: Len_def)
  have e2: "Swap [?x6, ?x1, ?x2, ?x3, ?x4, ?x5, ?c, ?x7, ?x8, ?x9, ?x10, ?x11, ?x12] 7 6 = [?x6, ?x1, ?x2, ?x3, ?x4, ?x5, ?x7, ?c, ?x8, ?x9, ?x10, ?x11, ?x12]"
    by (simp add: Swap_def)
  have s2: "swapped [?c, ?x1, ?x2, ?x3, ?x4, ?x5, ?x6, ?x7, ?x8, ?x9, ?x10, ?x11, ?x12] [?x6, ?x1, ?x2, ?x3, ?x4, ?x5, ?x7, ?c, ?x8, ?x9, ?x10, ?x11, ?x12]"
    using swapped_Swap [OF s1, of 7 6] by (simp only: e2) (simp add: Len_def)
  have e3: "Swap [?x6, ?x1, ?x2, ?x3, ?x4, ?x5, ?x7, ?c, ?x8, ?x9, ?x10, ?x11, ?x12] 8 7 = [?x6, ?x1, ?x2, ?x3, ?x4, ?x5, ?x7, ?x8, ?c, ?x9, ?x10, ?x11, ?x12]"
    by (simp add: Swap_def)
  have s3: "swapped [?c, ?x1, ?x2, ?x3, ?x4, ?x5, ?x6, ?x7, ?x8, ?x9, ?x10, ?x11, ?x12] [?x6, ?x1, ?x2, ?x3, ?x4, ?x5, ?x7, ?x8, ?c, ?x9, ?x10, ?x11, ?x12]"
    using swapped_Swap [OF s2, of 8 7] by (simp only: e3) (simp add: Len_def)
  have e4: "Swap [?x6, ?x1, ?x2, ?x3, ?x4, ?x5, ?x7, ?x8, ?c, ?x9, ?x10, ?x11, ?x12] 9 8 = [?x6, ?x1, ?x2, ?x3, ?x4, ?x5, ?x7, ?x8, ?x9, ?c, ?x10, ?x11, ?x12]"
    by (simp add: Swap_def)
  have s4: "swapped [?c, ?x1, ?x2, ?x3, ?x4, ?x5, ?x6, ?x7, ?x8, ?x9, ?x10, ?x11, ?x12] [?x6, ?x1, ?x2, ?x3, ?x4, ?x5, ?x7, ?x8, ?x9, ?c, ?x10, ?x11, ?x12]"
    using swapped_Swap [OF s3, of 9 8] by (simp only: e4) (simp add: Len_def)
  have e5: "Swap [?x6, ?x1, ?x2, ?x3, ?x4, ?x5, ?x7, ?x8, ?x9, ?c, ?x10, ?x11, ?x12] 10 9 = [?x6, ?x1, ?x2, ?x3, ?x4, ?x5, ?x7, ?x8, ?x9, ?x10, ?c, ?x11, ?x12]"
    by (simp add: Swap_def)
  have s5: "swapped [?c, ?x1, ?x2, ?x3, ?x4, ?x5, ?x6, ?x7, ?x8, ?x9, ?x10, ?x11, ?x12] [?x6, ?x1, ?x2, ?x3, ?x4, ?x5, ?x7, ?x8, ?x9, ?x10, ?c, ?x11, ?x12]"
    using swapped_Swap [OF s4, of 10 9] by (simp only: e5) (simp add: Len_def)
  have e6: "Swap [?x6, ?x1, ?x2, ?x3, ?x4, ?x5, ?x7, ?x8, ?x9, ?x10, ?c, ?x11, ?x12] 11 10 = [?x6, ?x1, ?x2, ?x3, ?x4, ?x5, ?x7, ?x8, ?x9, ?x10, ?x11, ?c, ?x12]"
    by (simp add: Swap_def)
  have s6: "swapped [?c, ?x1, ?x2, ?x3, ?x4, ?x5, ?x6, ?x7, ?x8, ?x9, ?x10, ?x11, ?x12] [?x6, ?x1, ?x2, ?x3, ?x4, ?x5, ?x7, ?x8, ?x9, ?x10, ?x11, ?c, ?x12]"
    using swapped_Swap [OF s5, of 11 10] by (simp only: e6) (simp add: Len_def)
  have e7: "Swap [?x6, ?x1, ?x2, ?x3, ?x4, ?x5, ?x7, ?x8, ?x9, ?x10, ?x11, ?c, ?x12] 12 11 = [?x6, ?x1, ?x2, ?x3, ?x4, ?x5, ?x7, ?x8, ?x9, ?x10, ?x11, ?x12, ?c]"
    by (simp add: Swap_def)
  have s7: "swapped [?c, ?x1, ?x2, ?x3, ?x4, ?x5, ?x6, ?x7, ?x8, ?x9, ?x10, ?x11, ?x12] [?x6, ?x1, ?x2, ?x3, ?x4, ?x5, ?x7, ?x8, ?x9, ?x10, ?x11, ?x12, ?c]"
    using swapped_Swap [OF s6, of 12 11] by (simp only: e7) (simp add: Len_def)
  have asc: "\<forall>j < Len [?x6, ?x1, ?x2, ?x3, ?x4, ?x5, ?x7, ?x8, ?x9, ?x10, ?x11, ?x12, ?c]. \<forall>i < j. \<not> Less [?x6, ?x1, ?x2, ?x3, ?x4, ?x5, ?x7, ?x8, ?x9, ?x10, ?x11, ?x12, ?c] j i"
    by (auto simp: Len_def Less_def nth_Cons' less_Suc_eq numeral_eq_Suc)
  have diff: "[?x6, ?x1, ?x2, ?x3, ?x4, ?x5, ?x7, ?x8, ?x9, ?x10, ?x11, ?x12, ?c] \<noteq> sort_key para_id [?c, ?x1, ?x2, ?x3, ?x4, ?x5, ?x6, ?x7, ?x8, ?x9, ?x10, ?x11, ?x12]"
    by simp
  show ?thesis
    using s7 asc diff by (simp add: toEpub_def sort_Sort_def)
qed

text \<open>
  The contract can be met: the stable sort of the chapters is an order in which
  \<^verbatim>\<open>toEpub\<close> may hand them over.
\<close>

lemma toEpub_outcome_exists: "toEpub n (sort_key para_id (paras n))"
proof -
  have "swapped (paras n) (sort_key para_id (paras n))"
    by (rule perm_swapped) simp
  moreover have "\<forall>j < Len (sort_key para_id (paras n)). \<forall>i < j.
      \<not> Less (sort_key para_id (paras n)) j i"
  proof (intro allI impI)
    fix j i assume j: "j < Len (sort_key para_id (paras n))" and i: "i < j"
    have "sorted (map para_id (sort_key para_id (paras n)))"
      by (rule sorted_sort_key)
    with i j have "map para_id (sort_key para_id (paras n)) ! i
        \<le> map para_id (sort_key para_id (paras n)) ! j"
      by (simp add: sorted_iff_nth_mono_less Len_def)
    with i j show "\<not> Less (sort_key para_id (paras n)) j i"
      by (simp add: Less_def Len_def)
  qed
  ultimately show ?thesis
    by (simp add: toEpub_def sort_Sort_def)
qed

text \<open>
  C3, amended: the chapters handed to the packager are the appended chapters, each as
  often as before, in ascending order of id, so that a chapter with id \<open>-1\<close> comes
  before every chapter whose id is zero or more. When no two chapters share an id this
  is the order of the stable sort; chapters appended with the ids 3, 1, -1, 2 come out
  as -1, 1, 2, 3.
\<close>

theorem chapters_sorted_by_id:
  assumes "toEpub n secs"
  shows "mset secs = mset (paras n) \<and> sorted (map para_id secs)
       \<and> (\<forall>i j. i < length secs \<and> j < length secs
              \<and> para_id (secs ! i) = - 1 \<and> 0 \<le> para_id (secs ! j) \<longrightarrow> i < j)
       \<and> (distinct (map para_id (paras n)) \<longrightarrow> secs = sort_key para_id (paras n))"
proof -
  from assms have sw: "swapped (paras n) secs" and asc: "\<forall>j < Len secs. \<forall>i < j. \<not> Less secs j i"
    by (simp_all add: toEpub_def sort_Sort_def)
  have m: "mset secs = mset (paras n)" using sw by (rule swapped_mset)
  have s: "sorted (map para_id secs)" using asc by (rule ascending_sorted)
  have first: "i < j"
    if "i < length secs" and "j < length secs"
      and "para_id (secs ! i) = - 1" and "0 \<le> para_id (secs ! j)" for i j
  proof (rule ccontr)
    assume "\<not> i < j"
    with that(1) s have "map para_id secs ! j \<le> map para_id secs ! i"
      by (simp add: sorted_iff_nth_mono)
    with that show False by simp
  qed
  have "sort_key para_id (paras n) = secs" if "distinct (map para_id (paras n))"
  proof (rule sort_key_inj_key_eq)
    show "mset (paras n) = mset secs" using m by simp
    show "inj_on para_id (set (paras n))" using that by (simp add: distinct_map)
    show "sorted (map para_id secs)" by (rule s)
  qed
  with m s first show ?thesis by auto
qed

theorem chapters_sorted_by_id_witness:
  "toEpub \<lparr>title = [], author = [],
       paras = [\<lparr>para_id = 3, para_title = [99], lines = []\<rparr>,
                \<lparr>para_id = 1, para_title = [97], lines = []\<rparr>,
                \<lparr>para_id = - 1, para_title = [120], lines = []\<rparr>,
                \<lparr>para_id = 2, para_title = [98], lines = []\<rparr>]\<rparr>
      [\<lparr>para_id = - 1, para_title = [120], lines = []\<rparr>,
       \<lparr>para_id = 1, para_title = [97], lines = []\<rparr>,
       \<lparr>para_id = 2, para_title = [98], lines = []\<rparr>,
       \<lparr>para_id = 3, para_title = [99], lines = []\<rparr>]
   \<and> [\<lparr>para_id = - 1, para_title = [120], lines = []\<rparr>,
       \<lparr>para_id = 1, para_title = [97], lines = []\<rparr>,
       \<lparr>para_id = 2, para_title = [98], lines = []\<rparr>,
       \<lparr>para_id = 3, para_title = [99], lines = []\<rparr>]
     = sort_key para_id
        [\<lparr>para_id = 3, para_title = [99], lines = []\<rparr>,
         \<lparr>para_id = 1, para_title = [97], lines = []\<rparr>,
         \<lparr>para_id = - 1, para_title = [120], lines = []\<rparr>,
         \<lparr>para_id = 2, para_title = [98], lines = []\<rparr>]"
proof -
  let ?c3 = "\<lparr>para_id = 3, para_title = [99], lines = []\<rparr>"
  let ?c1 = "\<lparr>para_id = 1, para_title = [97], lines = []\<rparr>"
  let ?cx = "\<lparr>para_id = - 1, para_title = [120], lines = []\<rparr>"
  let ?c2 = "\<lparr>para_id = 2, para_title = [98], lines = []\<rparr>"
  have s1: "Swap [?c3, ?c1, ?cx, ?c2] 0 2 = [?cx, ?c1, ?c3, ?c2]"
    by (simp add: Swap_def)
  have s2: "Swap [?cx, ?c1, ?c3, ?c2] 2 3 = [?cx, ?c1, ?c2, ?c3]"
    by (simp add: Swap_def)
  have "swapped [?c3, ?c1, ?cx, ?c2] [?cx, ?c1, ?c3, ?c2]"
    using swapped_Swap [OF swapped_refl, of 0 "[?c3, ?c1, ?cx, ?c2]" 2]
    by (simp only: s1) (simp add: Len_def)
  then have sw: "swapped [?c3, ?c1, ?cx, ?c2] [?cx, ?c1, ?c2, ?c3]"
    using swapped_Swap [of "[?c3, ?c1, ?cx, ?c2]" "[?cx, ?c1, ?c3, ?c2]" 2 3]
    by (simp only: s2) (simp add: Len_def)
  have asc: "\<forall>j < Len [?cx, ?c1, ?c2, ?c3]. \<forall>i < j. \<not> Less [?cx, ?c1, ?c2, ?c3] j i"
    by (auto simp: Len_def Less_def nth_Cons' less_Suc_eq numeral_eq_Suc)
  have t: "toEpub \<lparr>title = [], author = [], paras = [?c3, ?c1, ?cx, ?c2]\<rparr> [?cx, ?c1, ?c2, ?c3]"
    using sw asc by (simp add: toEpub_def sort_Sort_def)
  from chapters_sorted_by_id [OF t] t show ?thesis by simp
qed


end
